theory Spec2Isabelle
  imports Main
begin

section \<open>Python strings\<close>

text \<open>
  A Python \<open>str\<close> is a sequence of Unicode code points. A code point is a natural number
  and a string is a list of them; \<open>py\<close> turns an Isabelle string literal (ASCII) into
  such a list.
\<close>

type_synonym pystr = "nat list"

definition py :: "string \<Rightarrow> pystr" where
  "py s = map of_char s"

text \<open>
  The code points for which \<open>str.isspace\<close> holds. \<open>str.strip()\<close>, \<open>str.split()\<close>
  and the pattern class \<open>\s\<close> of a \<open>str\<close> pattern all use this test.
\<close>

definition WHITESPACE :: "nat list" where
  "WHITESPACE = [0x09, 0x0A, 0x0B, 0x0C, 0x0D, 0x1C, 0x1D, 0x1E, 0x1F, 0x20,
      0x85, 0xA0, 0x1680, 0x2000, 0x2001, 0x2002, 0x2003, 0x2004, 0x2005, 0x2006,
      0x2007, 0x2008, 0x2009, 0x200A, 0x2028, 0x2029, 0x202F, 0x205F, 0x3000]"

definition isspace :: "nat \<Rightarrow> bool" where
  "isspace c = (c \<in> set WHITESPACE)"

text \<open>\<open>s.strip()\<close>: leading and trailing whitespace removed.\<close>

definition strip :: "pystr \<Rightarrow> pystr" where
  "strip s = rev (dropWhile isspace (rev (dropWhile isspace s)))"

text \<open>
  \<open>s.split()\<close>: skip whitespace, take the run of non-whitespace that follows as a
  word, repeat; no empty word is produced.
\<close>

function split :: "pystr \<Rightarrow> pystr list" where
  "split s =
     (case dropWhile isspace s of
        [] \<Rightarrow> []
      | c # cs \<Rightarrow> takeWhile (\<lambda>x. \<not> isspace x) (c # cs)
                 # split (dropWhile (\<lambda>x. \<not> isspace x) (c # cs)))"
  by pat_completeness auto
termination
proof (relation "measure length")
  show "wf (measure length)" by simp
next
  fix s :: pystr and c cs
  assume d: "dropWhile isspace s = c # cs"
  have "\<not> isspace c"
    using d hd_dropWhile [of isspace s] by auto
  then have "length (dropWhile (\<lambda>x. \<not> isspace x) (c # cs)) \<le> length cs"
    using length_dropWhile_le [of "\<lambda>x. \<not> isspace x" cs] by simp
  moreover have "length (c # cs) \<le> length s"
    using length_dropWhile_le [of isspace s] d by simp
  ultimately show "(dropWhile (\<lambda>x. \<not> isspace x) (c # cs), s) \<in> measure length"
    by simp
qed

declare split.simps [simp del]

text \<open>\<open>sep.join(words)\<close>.\<close>

fun join :: "pystr \<Rightarrow> pystr list \<Rightarrow> pystr" where
  "join sep [] = []"
| "join sep [w] = w"
| "join sep (w # v # vs) = w @ sep @ join sep (v # vs)"

text \<open>The cleanup of \<open>extract_functions\<close>: \<open>" ".join(x.split())\<close>.\<close>

definition collapse :: "pystr \<Rightarrow> pystr" where
  "collapse s = join [0x20] (split s)"

section \<open>Regular expressions: the constructs of PATTERNS\<close>

text \<open>
  The patterns of the script use literals, character sets, \<open>\s\<close>, \<open>\w\<close>, \<open>.\<close>,
  the greedy repeats \<open>*\<close> and \<open>+\<close> and the lazy repeat \<open>*?\<close> on a single character
  set, concatenation, ordered alternation, the greedy \<open>?\<close> on a group, and capturing
  groups. They use no anchor, no look-around and no back-reference, so whether a match
  starts at a position depends on the text from that position on only.

  \<open>Uni P\<close> is a character class read from the Unicode character database, which is not
  part of the script: the test \<open>P\<close> is a parameter.
\<close>

datatype atom = Ch nat | Rng nat nat | Spc | Uni "nat \<Rightarrow> bool"

datatype cset = Pos "atom list" | Neg "atom list" | Dot

fun atom_ok :: "atom \<Rightarrow> nat \<Rightarrow> bool" where
  "atom_ok (Ch a) c = (c = a)"
| "atom_ok (Rng a b) c = (a \<le> c \<and> c \<le> b)"
| "atom_ok Spc c = isspace c"
| "atom_ok (Uni P) c = P c"

text \<open>\<open>Dot\<close> is \<open>.\<close> under \<open>re.DOTALL\<close>: every character, the newline too.\<close>

fun cset_ok :: "cset \<Rightarrow> nat \<Rightarrow> bool" where
  "cset_ok (Pos as) c = list_ex (\<lambda>a. atom_ok a c) as"
| "cset_ok (Neg as) c = (\<not> list_ex (\<lambda>a. atom_ok a c) as)"
| "cset_ok Dot c = True"

datatype regex =
    Eps
  | Lit pystr
  | One cset
  | Star cset
  | Plus cset
  | LazyStar cset
  | Seq regex regex
  | Alt regex regex
  | Opt regex
  | Grp nat regex

text \<open>\<open>match.groups()\<close>: one entry per capturing group, \<open>None\<close> for a group that took
  no part in the match.\<close>

type_synonym groups = "pystr option list"

text \<open>
  \<open>run P s\<close>: the rests of \<open>s\<close> after 0, 1, 2, ... leading characters that satisfy
  \<open>P\<close>, shortest run first.
\<close>

fun run :: "(nat \<Rightarrow> bool) \<Rightarrow> pystr \<Rightarrow> pystr list" where
  "run P [] = [[]]"
| "run P (c # t) = (c # t) # (if P c then run P t else [])"

text \<open>
  The backtracking matcher. \<open>rmatch r s g\<close> lists every way \<open>r\<close> matches a prefix of
  \<open>s\<close>, as the rest of the text and the groups after the match, in the order in which
  the engine tries them: a greedy repeat tries the longest run first, a lazy one the
  shortest, an alternation its branches from left to right, a greedy \<open>?\<close> its body before
  the empty match. The engine reports the first entry of the list that the rest of the
  pattern accepts; the groups set on a branch that is given up are given up with it.
\<close>

fun rmatch :: "regex \<Rightarrow> pystr \<Rightarrow> groups \<Rightarrow> (pystr \<times> groups) list" where
  "rmatch Eps s g = [(s, g)]"
| "rmatch (Lit l) s g = (if take (length l) s = l then [(drop (length l) s, g)] else [])"
| "rmatch (One cs) s g =
     (case s of [] \<Rightarrow> [] | c # t \<Rightarrow> if cset_ok cs c then [(t, g)] else [])"
| "rmatch (Star cs) s g = map (\<lambda>t. (t, g)) (rev (run (cset_ok cs) s))"
| "rmatch (Plus cs) s g = map (\<lambda>t. (t, g)) (rev (tl (run (cset_ok cs) s)))"
| "rmatch (LazyStar cs) s g = map (\<lambda>t. (t, g)) (run (cset_ok cs) s)"
| "rmatch (Seq a b) s g = concat (map (\<lambda>(t, h). rmatch b t h) (rmatch a s g))"
| "rmatch (Alt a b) s g = rmatch a s g @ rmatch b s g"
| "rmatch (Opt a) s g = rmatch a s g @ [(s, g)]"
| "rmatch (Grp i a) s g =
     map (\<lambda>(t, h). (t, h[i - 1 := Some (take (length s - length t) s)])) (rmatch a s g)"

fun ngroups :: "regex \<Rightarrow> nat" where
  "ngroups (Seq a b) = max (ngroups a) (ngroups b)"
| "ngroups (Alt a b) = max (ngroups a) (ngroups b)"
| "ngroups (Opt a) = ngroups a"
| "ngroups (Grp i a) = max i (ngroups a)"
| "ngroups _ = 0"

text \<open>
  One attempt of the engine at the start of \<open>s\<close>. After an empty match the iterator
  asks for the next match at the same position with \<open>must_advance\<close> set: an empty match
  there is then refused and the engine backtracks for a longer one.
\<close>

definition match_at :: "regex \<Rightarrow> bool \<Rightarrow> pystr \<Rightarrow> (pystr \<times> groups) option" where
  "match_at r must_advance s =
     List.find (\<lambda>(t, h). if must_advance then length t < length s else True)
       (rmatch r s (replicate (ngroups r) None))"

text \<open>
  \<open>scan\<close> is the iteration of \<open>re.finditer\<close>: the leftmost match from the current
  position, then the search goes on where that match ended; matches do not overlap.
  The result lists \<open>match.groups()\<close> of the successive matches.
\<close>

function scan :: "regex \<Rightarrow> bool \<Rightarrow> pystr \<Rightarrow> groups list" where
  "scan r must_advance s =
     (case match_at r must_advance s of
        Some (t, h) \<Rightarrow>
          h # (if length t < length s then scan r False t else scan r True s)
      | None \<Rightarrow> (case s of [] \<Rightarrow> [] | c # t \<Rightarrow> scan r False t))"
  by pat_completeness auto
termination
proof (relation "measure (\<lambda>(r, adv, s). 2 * length s + (if adv then 0 else 1))")
  show "wf (measure (\<lambda>(r, adv, s). 2 * length s + (if adv then 0 else 1)))" by simp
next
  fix r :: regex and must_advance s x2 t h
  assume "match_at r must_advance s = Some x2" "(t, h) = x2" "length t < length s"
  then show "((r, False, t), (r, must_advance, s))
    \<in> measure (\<lambda>(r, adv, s). 2 * length s + (if adv then 0 else 1))"
    by simp
next
  fix r :: regex and must_advance s x2 t h
  assume m: "match_at r must_advance s = Some x2" and x: "(t, h) = x2"
    and n: "\<not> length t < length s"
  from m x have "if must_advance then length t < length s else True"
    unfolding match_at_def by (auto simp: find_Some_iff)
  with n have "\<not> must_advance" by (simp split: if_splits)
  then show "((r, True, s), (r, must_advance, s))
    \<in> measure (\<lambda>(r, adv, s). 2 * length s + (if adv then 0 else 1))"
    by simp
next
  fix r :: regex and must_advance and s :: pystr and c t
  assume "s = c # t"
  then show "((r, False, t), (r, must_advance, s))
    \<in> measure (\<lambda>(r, adv, s). 2 * length s + (if adv then 0 else 1))"
    by simp
qed

declare scan.simps [simp del]

definition finditer :: "regex \<Rightarrow> pystr \<Rightarrow> groups list" where
  "finditer r s = scan r False s"

text \<open>
  The iterator as the loop of \<open>extract_functions\<close> sees it: it yields a match or raises.
  The engine can fail while it searches (it allocates as it backtracks); \<open>fault\<close> says
  whether and when: \<open>Some n\<close> is a run in which the iterator raises when asked for its
  match number \<open>n\<close> (counted from 0), \<open>None\<close> a run without failure.
\<close>

datatype event = Found groups | Raised

definition re_finditer :: "nat option \<Rightarrow> regex \<Rightarrow> pystr \<Rightarrow> event list" where
  "re_finditer fault r s =
     (case fault of
        None \<Rightarrow> map Found (finditer r s)
      | Some n \<Rightarrow> map Found (take n (finditer r s)) @ [Raised])"

section \<open>The configuration of the script\<close>

definition IGNORE_EXTS :: "pystr set" where
  "IGNORE_EXTS = set (map py
     [''.png'', ''.jpg'', ''.jpeg'', ''.gif'', ''.ico'', ''.svg'', ''.woff'', ''.woff2'',
      ''.ttf'', ''.eot'', ''.mp4'', ''.webm'', ''.mp3'', ''.wav'', ''.zip'', ''.tar'', ''.gz'',
      ''.pyc'', ''.exe'', ''.dll'', ''.so'', ''.dylib'', ''.lock'', ''.log'', ''.map'',
      ''.DS_Store'', ''.class'', ''.o'', ''.obj''])"

definition MAX_FILE_SIZE_BYTES :: nat where
  "MAX_FILE_SIZE_BYTES = 100 * 1024"

fun seq :: "regex list \<Rightarrow> regex" where
  "seq [] = Eps"
| "seq [r] = r"
| "seq (r # rs) = Seq r (seq rs)"

fun alt :: "regex list \<Rightarrow> regex" where
  "alt [] = Eps"
| "alt [r] = r"
| "alt (r # rs) = Alt r (alt rs)"

text \<open>\<open>\s\<close>, \<open>[a-zA-Z_]\<close>, \<open>[a-zA-Z0-9_]\<close>, \<open>[a-zA-Z0-9_<>]\<close>, \<open>[^)]\<close>.\<close>

definition whitespace :: cset where
  "whitespace = Pos [Spc]"

definition ident_start :: cset where
  "ident_start = Pos [Rng 0x61 0x7A, Rng 0x41 0x5A, Ch 0x5F]"

definition ident_char :: cset where
  "ident_char = Pos [Rng 0x61 0x7A, Rng 0x41 0x5A, Rng 0x30 0x39, Ch 0x5F]"

definition type_char :: cset where
  "type_char = Pos [Rng 0x61 0x7A, Rng 0x41 0x5A, Rng 0x30 0x39, Ch 0x5F, Ch 0x3C, Ch 0x3E]"

definition not_rparen :: cset where
  "not_rparen = Neg [Ch 0x29]"

text \<open>\<open>[a-zA-Z_][a-zA-Z0-9_]*\<close> and \<open>[a-zA-Z0-9_]+\<close>.\<close>

definition ident :: regex where
  "ident = Seq (One ident_start) (Star ident_char)"

definition word :: regex where
  "word = Plus ident_char"

text \<open>
  The patterns, one per language, in the order of the dictionary. \<open>isalnum\<close> is
  \<open>str.isalnum\<close> on one character, which together with the underscore makes the
  class \<open>\w\<close> of the Java pattern.
\<close>

definition python_pattern :: regex where
  "python_pattern = seq [Lit (py ''def''), Plus whitespace, Grp 1 ident, Star whitespace,
     Lit (py ''(''), Grp 2 (LazyStar Dot), Lit (py '')''),
     Opt (seq [Star whitespace, Lit (py ''->''), Star whitespace, Grp 3 (LazyStar Dot)]),
     Lit (py '':'')]"

definition javascript_pattern :: regex where
  "javascript_pattern = alt
     [seq [Lit (py ''function''), Plus whitespace, Grp 1 ident, Star whitespace,
           Lit (py ''(''), Grp 2 (LazyStar Dot), Lit (py '')'')],
      seq [Lit (py ''const''), Plus whitespace, Grp 3 ident, Star whitespace, Lit (py ''=''), Star whitespace,
           Opt (seq [Lit (py ''async''), Star whitespace]),
           Lit (py ''(''), Grp 4 (LazyStar Dot), Lit (py '')''), Star whitespace, Lit (py ''=>'')],
      seq [Grp 5 ident, Star whitespace, Lit (py ''(''), Grp 6 (LazyStar Dot), Lit (py '')''),
           Star whitespace, Lit (py ''{'')]]"

definition rust_pattern :: regex where
  "rust_pattern = seq [Lit (py ''fn''), Plus whitespace, Grp 1 ident, Star whitespace,
     Opt (seq [Lit (py ''<''), LazyStar Dot, Lit (py ''>'')]), Star whitespace,
     Lit (py ''(''), Grp 2 (LazyStar Dot), Lit (py '')''),
     Opt (seq [Star whitespace, Lit (py ''->''), Star whitespace, Grp 3 (LazyStar Dot)]),
     Star whitespace, Lit (py ''{'')]"

definition go_pattern :: regex where
  "go_pattern = seq [Lit (py ''func''), Plus whitespace, Grp 1 ident, Star whitespace,
     Lit (py ''(''), Grp 2 (LazyStar Dot), Lit (py '')''), Star whitespace,
     Opt (Grp 3 (LazyStar Dot)), Lit (py ''{'')]"

definition dart_pattern :: regex where
  "dart_pattern = seq [Plus type_char, Plus whitespace, Grp 1 ident, Star whitespace,
     Lit (py ''(''), Grp 2 (LazyStar Dot), Lit (py '')''), Star whitespace,
     Opt (Lit (py ''async'')), Star whitespace, Lit (py ''{'')]"

definition java_pattern :: "(nat \<Rightarrow> bool) \<Rightarrow> regex" where
  "java_pattern isalnum = seq
     [alt [Lit (py ''public''), Lit (py ''protected''), Lit (py ''private''),
           Lit (py ''static''), One whitespace],
      Plus (Pos [Ch 0x20]),
      Plus (Pos [Uni isalnum, Ch 0x5F, Ch 0x3C, Ch 0x3E, Ch 0x5B, Ch 0x5D]),
      Plus whitespace, Grp 1 word, Star whitespace,
      Lit (py ''(''), Grp 2 (Star not_rparen), Lit (py '')''), Star whitespace,
      Opt (seq [Lit (py ''throws''), One whitespace, LazyStar Dot]), Lit (py ''{'')]"

definition kotlin_pattern :: regex where
  "kotlin_pattern = seq [Lit (py ''fun''), Plus whitespace, Grp 1 word, Star whitespace,
     Lit (py ''(''), Grp 2 (Star not_rparen), Lit (py '')''),
     Opt (seq [Star whitespace, Lit (py '':''), Star whitespace, Plus type_char]),
     Star whitespace, Lit (py ''{'')]"

definition swift_pattern :: regex where
  "swift_pattern = seq [Lit (py ''func''), Plus whitespace, Grp 1 word, Star whitespace,
     Lit (py ''(''), Grp 2 (Star not_rparen), Lit (py '')''),
     Opt (seq [Star whitespace, Lit (py ''->''), Star whitespace, Plus type_char]),
     Star whitespace, Lit (py ''{'')]"

definition c_pattern :: regex where
  "c_pattern = seq [Grp 1 word, Plus whitespace, Grp 2 word, Star whitespace,
     Lit (py ''(''), Grp 3 (Star not_rparen), Lit (py '')''), Star whitespace, Lit (py ''{'')]"

definition cpp_pattern :: regex where
  "cpp_pattern = seq [Grp 1 word, Plus whitespace, Grp 2 word, Star whitespace,
     Lit (py ''(''), Grp 3 (Star not_rparen), Lit (py '')''), Star whitespace,
     Opt (Lit (py ''const'')), Star whitespace, Lit (py ''{'')]"

definition php_pattern :: regex where
  "php_pattern = seq [Lit (py ''function''), Plus whitespace, Grp 1 word, Star whitespace,
     Lit (py ''(''), Grp 2 (Star not_rparen), Lit (py '')''), Star whitespace,
     Opt (seq [Lit (py '':''), Star whitespace, Plus type_char]),
     Star whitespace, Lit (py ''{'')]"

definition PATTERNS :: "(nat \<Rightarrow> bool) \<Rightarrow> pystr \<Rightarrow> regex option" where
  "PATTERNS isalnum = map_of
     [(py ''python'', python_pattern),
      (py ''javascript'', javascript_pattern),
      (py ''typescript'', javascript_pattern),
      (py ''rust'', rust_pattern),
      (py ''go'', go_pattern),
      (py ''dart'', dart_pattern),
      (py ''java'', java_pattern isalnum),
      (py ''kotlin'', kotlin_pattern),
      (py ''swift'', swift_pattern),
      (py ''c'', c_pattern),
      (py ''cpp'', cpp_pattern),
      (py ''php'', php_pattern)]"

definition LANGUAGE_MAP :: "pystr \<Rightarrow> pystr option" where
  "LANGUAGE_MAP = map_of
     [(py ''.py'', py ''python''),
      (py ''.js'', py ''javascript''), (py ''.jsx'', py ''javascript''),
      (py ''.mjs'', py ''javascript''),
      (py ''.ts'', py ''typescript''), (py ''.tsx'', py ''typescript''),
      (py ''.rs'', py ''rust''),
      (py ''.go'', py ''go''),
      (py ''.dart'', py ''dart''),
      (py ''.java'', py ''java''),
      (py ''.kt'', py ''kotlin''), (py ''.kts'', py ''kotlin''),
      (py ''.swift'', py ''swift''),
      (py ''.c'', py ''c''), (py ''.h'', py ''c''),
      (py ''.cpp'', py ''cpp''), (py ''.hpp'', py ''cpp''), (py ''.cc'', py ''cpp''),
      (py ''.php'', py ''php'')]"

definition get_language :: "pystr \<Rightarrow> pystr option" where
  "get_language ext = LANGUAGE_MAP ext"

section \<open>extract_functions\<close>

record signature =
  name :: pystr
  args :: pystr
  return :: pystr

text \<open>\<open>[g for g in match.groups() if g]\<close>: \<open>None\<close> and the empty string are dropped.\<close>

fun truthy :: "groups \<Rightarrow> pystr list" where
  "truthy [] = []"
| "truthy (None # gs) = truthy gs"
| "truthy (Some w # gs) = (if w = [] then truthy gs else w # truthy gs)"

text \<open>
  The body of \<open>if groups:\<close> for one match: the dictionary that is appended, from the
  non-empty groups of the match (at least one, by the guard).
\<close>

definition signature_of :: "pystr \<Rightarrow> pystr list \<Rightarrow> signature" where
  "signature_of lang groups =
     (let func_name = strip (groups ! 0);
          (func_name, args, ret) =
            (if lang \<in> set [py ''c'', py ''cpp'']
             then (if length groups \<ge> 3
                   then (strip (groups ! 1), strip (groups ! 2), strip (groups ! 0))
                   else (func_name, [], []))
             else if lang = py ''java''
             then (func_name, if length groups > 1 then strip (groups ! 1) else [], [])
             else (func_name,
                   if length groups > 1 then strip (groups ! 1) else [],
                   if length groups > 2 then strip (groups ! 2) else []))
      in \<lparr>name = func_name, args = collapse args, return = collapse ret\<rparr>)"

text \<open>
  The \<open>for\<close> loop inside \<open>try\<close>, over what the iterator does, with the list
  \<open>functions\<close> built so far. \<open>Raised\<close> leaves the loop through
  \<open>except Exception: pass\<close>, and the function returns the list as it stands.
\<close>

fun collect :: "pystr \<Rightarrow> event list \<Rightarrow> signature list \<Rightarrow> signature list" where
  "collect lang [] found = found"
| "collect lang (Raised # es) found = found"
| "collect lang (Found m # es) found =
     (let groups = truthy m
      in if groups \<noteq> [] then collect lang es (found @ [signature_of lang groups])
         else collect lang es found)"

definition extract_functions ::
  "(nat \<Rightarrow> bool) \<Rightarrow> nat option \<Rightarrow> pystr \<Rightarrow> pystr \<Rightarrow> signature list" where
  "extract_functions isalnum fault content lang =
     (case PATTERNS isalnum lang of
        None \<Rightarrow> []
      | Some pattern \<Rightarrow> collect lang (re_finditer fault pattern content) [])"

section \<open>generate_tree: the body of the loop over the files of a directory\<close>

text \<open>
  A file as the walk meets it: its name, its path relative to the start directory, what
  \<open>os.path.getsize\<close> returns (\<open>None\<close>: it raises), what reading the file as text gives
  (\<open>None\<close>: \<open>open\<close> or \<open>read\<close> raises) and whether the pattern engine fails on it.
\<close>

record file_entry =
  fname :: pystr
  rel_path :: pystr
  getsize :: "nat option"
  read :: "pystr option"
  engine_fault :: "nat option"

record file_summary =
  path :: pystr
  "functions" :: "signature list"

text \<open>
  \<open>os.path.splitext(f)[1]\<close>: the extension starts at the last dot of the last path
  component, unless only dots stand before it in that component.
\<close>

definition splitext_ext :: "pystr \<Rightarrow> pystr" where
  "splitext_ext p =
     (let base = rev (takeWhile (\<lambda>c. c \<noteq> 0x2F) (rev p));
          stem = rev (tl (dropWhile (\<lambda>c. c \<noteq> 0x2E) (rev base)))
      in if 0x2E \<in> set base \<and> list_ex (\<lambda>c. c \<noteq> 0x2E) stem
         then 0x2E # rev (takeWhile (\<lambda>c. c \<noteq> 0x2E) (rev base))
         else [])"

text \<open>
  The \<open>try\<close> block of the loop body: \<open>Some\<close> of what \<open>extract_functions\<close> returned
  when it was called, \<open>None\<close> when it was not (the size test failed, the language is
  unknown, or \<open>getsize\<close>, \<open>open\<close> or \<open>read\<close> raised).
\<close>

definition try_extract :: "(nat \<Rightarrow> bool) \<Rightarrow> file_entry \<Rightarrow> signature list option" where
  "try_extract isalnum f =
     (case getsize f of
        None \<Rightarrow> None
      | Some n \<Rightarrow>
          if n < MAX_FILE_SIZE_BYTES then
            (case read f of
               None \<Rightarrow> None
             | Some content \<Rightarrow>
                 (case get_language (splitext_ext (fname f)) of
                    None \<Rightarrow> None
                  | Some lang \<Rightarrow> Some (extract_functions isalnum (engine_fault f) content lang)))
          else None)"

text \<open>The line of the tree for a file: the indentation, the page sign, a space, the name.\<close>

definition file_line :: "nat \<Rightarrow> pystr \<Rightarrow> pystr" where
  "file_line level f = replicate (2 * (level + 1)) 0x20 @ [0x1F4C4, 0x20] @ f"

fun process_file ::
  "(nat \<Rightarrow> bool) \<Rightarrow> nat \<Rightarrow> pystr list \<times> file_summary list \<Rightarrow> file_entry
    \<Rightarrow> pystr list \<times> file_summary list" where
  "process_file isalnum level (tree_lines, files_data) f =
     (if splitext_ext (fname f) \<in> IGNORE_EXTS then (tree_lines, files_data)
      else
        let tree_lines = tree_lines @ [file_line level (fname f)];
            funcs = (case try_extract isalnum f of None \<Rightarrow> [] | Some fs \<Rightarrow> fs)
        in if funcs \<noteq> []
           then (tree_lines, files_data @ [\<lparr>path = rel_path f, functions = take 25 funcs\<rparr>])
           else (tree_lines, files_data))"

definition process_files ::
  "(nat \<Rightarrow> bool) \<Rightarrow> nat \<Rightarrow> pystr list \<times> file_summary list \<Rightarrow> file_entry list
    \<Rightarrow> pystr list \<times> file_summary list" where
  "process_files isalnum level acc files = foldl (process_file isalnum level) acc files"

section \<open>What a match can capture\<close>

text \<open>
  A static reading of a pattern, used to show what its groups hold after any match. A
  character set is \<open>solid\<close> when no whitespace character belongs to it; \<open>nospace r\<close>
  holds when \<open>r\<close> can only match text without whitespace, \<open>nonempty r\<close> when it
  cannot match the empty text.
\<close>

fun atom_solid :: "atom \<Rightarrow> bool" where
  "atom_solid (Ch a) = (\<not> isspace a)"
| "atom_solid (Rng a b) = list_all (\<lambda>c. \<not> (a \<le> c \<and> c \<le> b)) WHITESPACE"
| "atom_solid Spc = False"
| "atom_solid (Uni P) = False"

fun cset_solid :: "cset \<Rightarrow> bool" where
  "cset_solid (Pos as) = list_all atom_solid as"
| "cset_solid (Neg as) = False"
| "cset_solid Dot = False"

fun nospace :: "regex \<Rightarrow> bool" where
  "nospace Eps = True"
| "nospace (Lit l) = list_all (\<lambda>c. \<not> isspace c) l"
| "nospace (One cs) = cset_solid cs"
| "nospace (Star cs) = cset_solid cs"
| "nospace (Plus cs) = cset_solid cs"
| "nospace (LazyStar cs) = cset_solid cs"
| "nospace (Seq a b) = (nospace a \<and> nospace b)"
| "nospace (Alt a b) = (nospace a \<and> nospace b)"
| "nospace (Opt a) = nospace a"
| "nospace (Grp i a) = nospace a"

fun nonempty :: "regex \<Rightarrow> bool" where
  "nonempty Eps = False"
| "nonempty (Lit l) = (l \<noteq> [])"
| "nonempty (One cs) = True"
| "nonempty (Star cs) = False"
| "nonempty (Plus cs) = True"
| "nonempty (LazyStar cs) = False"
| "nonempty (Seq a b) = (nonempty a \<or> nonempty b)"
| "nonempty (Alt a b) = (nonempty a \<and> nonempty b)"
| "nonempty (Opt a) = False"
| "nonempty (Grp i a) = nonempty a"

text \<open>
  What is known of one group after a match: it took no part (\<open>Unset\<close>), it holds a
  non-empty text without whitespace (\<open>Solid\<close>), or it holds some text (\<open>Anything\<close>).
  \<open>shapes r sh\<close> lists what the groups can look like after \<open>r\<close> has matched, one entry
  per way through the alternatives and options of \<open>r\<close>, starting from \<open>sh\<close>.
\<close>

datatype gshape = Unset | Solid | Anything

fun shapes :: "regex \<Rightarrow> gshape list \<Rightarrow> gshape list list" where
  "shapes (Seq a b) sh = concat (map (shapes b) (shapes a sh))"
| "shapes (Alt a b) sh = shapes a sh @ shapes b sh"
| "shapes (Opt a) sh = shapes a sh @ [sh]"
| "shapes (Grp i a) sh =
     map (\<lambda>x. x[i - 1 := (if nospace a \<and> nonempty a then Solid else Anything)]) (shapes a sh)"
| "shapes _ sh = [sh]"

definition solid_text :: "pystr \<Rightarrow> bool" where
  "solid_text w = (w \<noteq> [] \<and> list_all (\<lambda>c. \<not> isspace c) w)"

fun holds :: "pystr option \<Rightarrow> gshape \<Rightarrow> bool" where
  "holds None Unset = True"
| "holds (Some w) Solid = solid_text w"
| "holds (Some w) Anything = True"
| "holds _ _ = False"

definition fits :: "groups \<Rightarrow> gshape list \<Rightarrow> bool" where
  "fits g sh = list_all2 holds g sh"

text \<open>\<open>lead_solid n sh\<close>: the first \<open>n\<close> groups that are set are solid.\<close>

fun lead_solid :: "nat \<Rightarrow> gshape list \<Rightarrow> bool" where
  "lead_solid 0 sh = True"
| "lead_solid (Suc n) [] = False"
| "lead_solid (Suc n) (Unset # sh) = lead_solid (Suc n) sh"
| "lead_solid (Suc n) (Solid # sh) = lead_solid n sh"
| "lead_solid (Suc n) (Anything # sh) = False"

text \<open>The matches that the iterator has yielded when the loop ends.\<close>

fun yielded :: "event list \<Rightarrow> groups list" where
  "yielded [] = []"
| "yielded (Raised # es) = []"
| "yielded (Found m # es) = m # yielded es"

section \<open>Splitting and joining\<close>

lemma split_Nil: "split [] = []"
  by (simp add: split.simps)

lemma split_space: "isspace c \<Longrightarrow> split (c # s) = split s"
  by (simp add: split.simps [of "c # s"] split.simps [of s])

lemma split_nonspace:
  "\<not> isspace c \<Longrightarrow>
   split (c # cs) = (c # takeWhile (\<lambda>x. \<not> isspace x) cs) # split (dropWhile (\<lambda>x. \<not> isspace x) cs)"
  by (simp add: split.simps [of "c # cs"])

lemma split_words: "w \<in> set (split s) \<Longrightarrow> w \<noteq> [] \<and> list_all (\<lambda>c. \<not> isspace c) w"
proof (induction s rule: split.induct)
  case (1 s)
  show ?case
  proof (cases "dropWhile isspace s")
    case Nil
    with "1.prems" show ?thesis by (simp add: split.simps [of s])
  next
    case (Cons c cs)
    have nc: "\<not> isspace c" using Cons hd_dropWhile [of isspace s] by auto
    from "1.prems" Cons have "w = takeWhile (\<lambda>x. \<not> isspace x) (c # cs)
        \<or> w \<in> set (split (dropWhile (\<lambda>x. \<not> isspace x) (c # cs)))"
      by (simp add: split.simps [of s])
    then show ?thesis
    proof
      assume w: "w = takeWhile (\<lambda>x. \<not> isspace x) (c # cs)"
      then have "w \<noteq> []" using nc by simp
      moreover have "list_all (\<lambda>c. \<not> isspace c) w"
        unfolding w list_all_iff by (auto dest: set_takeWhileD)
      ultimately show ?thesis by simp
    next
      assume "w \<in> set (split (dropWhile (\<lambda>x. \<not> isspace x) (c # cs)))"
      then show ?thesis using "1.IH" [OF Cons] by simp
    qed
  qed
qed

lemma split_word:
  assumes "w \<noteq> []" "list_all (\<lambda>c. \<not> isspace c) w"
  shows "split w = [w]"
proof -
  obtain c cs where w: "w = c # cs" using assms(1) by (cases w) auto
  have c: "\<not> isspace c" and cs: "\<forall>x\<in>set cs. \<not> isspace x"
    using assms(2) w by (simp_all add: list_all_iff)
  have e: "dropWhile (\<lambda>x. \<not> isspace x) cs = []"
    using cs by simp
  show ?thesis
    unfolding w using cs by (simp add: split_nonspace [OF c] e split_Nil)
qed

lemma split_word_space:
  assumes "w \<noteq> []" "list_all (\<lambda>c. \<not> isspace c) w" "isspace b"
  shows "split (w @ b # s) = w # split s"
proof -
  obtain c cs where w: "w = c # cs" using assms(1) by (cases w) auto
  have c: "\<not> isspace c" and cs: "\<forall>x\<in>set cs. \<not> isspace x"
    using assms(2) w by (simp_all add: list_all_iff)
  have t: "takeWhile (\<lambda>x. \<not> isspace x) (cs @ b # s) = cs"
    using cs assms(3) by (simp add: takeWhile_append2)
  have e: "dropWhile (\<lambda>x. \<not> isspace x) (cs @ b # s) = b # s"
    using cs assms(3) by (simp add: dropWhile_append2)
  have "split (w @ b # s) = w # split (b # s)"
    unfolding w using split_nonspace [OF c, of "cs @ b # s"] by (simp add: t e)
  then show ?thesis using assms(3) by (simp add: split_space)
qed

lemma isspace_32: "isspace 0x20"
  by (simp add: isspace_def WHITESPACE_def)

lemma split_join:
  "list_all (\<lambda>w. w \<noteq> [] \<and> list_all (\<lambda>c. \<not> isspace c) w) vs \<Longrightarrow> split (join [0x20] vs) = vs"
proof (induction vs)
  case Nil
  then show ?case by (simp add: split_Nil)
next
  case (Cons w vs)
  show ?case
  proof (cases vs)
    case Nil
    with Cons.prems show ?thesis by (simp add: split_word)
  next
    case (Cons v us)
    with Cons.prems Cons.IH show ?thesis
      using isspace_32 by (simp add: split_word_space)
  qed
qed

section \<open>Every match fits a shape of its pattern\<close>

lemma atom_solid_ok: "atom_solid a \<Longrightarrow> atom_ok a c \<Longrightarrow> \<not> isspace c"
  by (cases a) (auto simp: isspace_def list_all_iff)

lemma cset_solid_ok: "cset_solid cs \<Longrightarrow> cset_ok cs c \<Longrightarrow> \<not> isspace c"
  by (cases cs) (auto simp: list_all_iff list_ex_iff dest: atom_solid_ok)

lemma run_split: "t \<in> set (run P s) \<Longrightarrow> \<exists>u. s = u @ t \<and> list_all P u"
proof (induction s)
  case Nil
  then show ?case by simp
next
  case (Cons c s)
  from Cons.prems have "t = c # s \<or> (P c \<and> t \<in> set (run P s))"
    by (auto split: if_splits)
  then show ?case
  proof
    assume "t = c # s"
    then show ?thesis by simp
  next
    assume "P c \<and> t \<in> set (run P s)"
    then obtain u where "s = u @ t" "list_all P u" "P c" using Cons.IH by blast
    then have "c # s = (c # u) @ t \<and> list_all P (c # u)" by simp
    then show ?thesis by blast
  qed
qed

lemma run_tl_split: "t \<in> set (tl (run P s)) \<Longrightarrow> \<exists>u. s = u @ t \<and> list_all P u \<and> u \<noteq> []"
proof (cases s)
  case Nil
  assume "t \<in> set (tl (run P s))"
  with Nil show ?thesis by simp
next
  case (Cons c s')
  assume "t \<in> set (tl (run P s))"
  with Cons have "P c" and "t \<in> set (run P s')" by (auto split: if_splits)
  then obtain u where "s' = u @ t" "list_all P u" using run_split by blast
  with \<open>P c\<close> Cons have "s = (c # u) @ t \<and> list_all P (c # u) \<and> c # u \<noteq> []" by simp
  then show ?thesis by blast
qed

lemma list_all_solid: "cset_solid cs \<Longrightarrow> list_all (cset_ok cs) u \<Longrightarrow> list_all (\<lambda>c. \<not> isspace c) u"
  by (auto simp: list_all_iff dest: cset_solid_ok)

lemma rmatch_consumes:
  "(t, h) \<in> set (rmatch r s g) \<Longrightarrow>
   \<exists>u. s = u @ t \<and> (nospace r \<longrightarrow> list_all (\<lambda>c. \<not> isspace c) u) \<and> (nonempty r \<longrightarrow> u \<noteq> [])"
proof (induction r arbitrary: s g t h)
  case Eps
  then show ?case by simp
next
  case (Lit l)
  then have "take (length l) s = l" "t = drop (length l) s" by (auto split: if_splits)
  then have "s = l @ t" by (metis append_take_drop_id)
  then show ?case by auto
next
  case (One cs)
  then obtain c where "s = c # t" "cset_ok cs c" by (auto split: list.splits if_splits)
  then show ?case by (intro exI [of _ "[c]"]) (auto dest: cset_solid_ok)
next
  case (Star cs)
  then have "t \<in> set (run (cset_ok cs) s)" by auto
  then show ?case using run_split [of t "cset_ok cs" s] by (auto dest: list_all_solid)
next
  case (Plus cs)
  then have "t \<in> set (tl (run (cset_ok cs) s))" by auto
  then show ?case using run_tl_split [of t "cset_ok cs" s] by (auto dest: list_all_solid)
next
  case (LazyStar cs)
  then have "t \<in> set (run (cset_ok cs) s)" by auto
  then show ?case using run_split [of t "cset_ok cs" s] by (auto dest: list_all_solid)
next
  case (Seq a b)
  from Seq.prems obtain t' h' where a: "(t', h') \<in> set (rmatch a s g)"
    and b: "(t, h) \<in> set (rmatch b t' h')" by auto
  from Seq.IH(1) [OF a] obtain u where u: "s = u @ t'"
    "nospace a \<longrightarrow> list_all (\<lambda>c. \<not> isspace c) u" "nonempty a \<longrightarrow> u \<noteq> []" by blast
  from Seq.IH(2) [OF b] obtain v where v: "t' = v @ t"
    "nospace b \<longrightarrow> list_all (\<lambda>c. \<not> isspace c) v" "nonempty b \<longrightarrow> v \<noteq> []" by blast
  have "s = (u @ v) @ t" using u(1) v(1) by simp
  moreover have "nospace (Seq a b) \<longrightarrow> list_all (\<lambda>c. \<not> isspace c) (u @ v)"
    using u(2) v(2) by simp
  moreover have "nonempty (Seq a b) \<longrightarrow> u @ v \<noteq> []"
    using u(3) v(3) by auto
  ultimately show ?case by blast
next
  case (Alt a b)
  from Alt.prems have "(t, h) \<in> set (rmatch a s g) \<or> (t, h) \<in> set (rmatch b s g)" by simp
  then show ?case using Alt.IH by fastforce
next
  case (Opt a)
  from Opt.prems have "(t, h) \<in> set (rmatch a s g) \<or> t = s" by auto
  then show ?case
  proof
    assume "(t, h) \<in> set (rmatch a s g)"
    from Opt.IH [OF this] show ?thesis by auto
  next
    assume "t = s"
    then show ?thesis by (intro exI [of _ "[]"]) simp
  qed
next
  case (Grp i a)
  from Grp.prems obtain h' where "(t, h') \<in> set (rmatch a s g)" by auto
  from Grp.IH [OF this] show ?case by simp
qed


lemma rmatch_shapes:
  "(t, h) \<in> set (rmatch r s g) \<Longrightarrow> fits g sh \<Longrightarrow> list_ex (fits h) (shapes r sh)"
proof (induction r arbitrary: s g t h sh)
  case (Seq a b)
  from Seq.prems obtain t' h' where a: "(t', h') \<in> set (rmatch a s g)"
    and b: "(t, h) \<in> set (rmatch b t' h')" by auto
  from Seq.IH(1) [OF a Seq.prems(2)] obtain sh' where
    sh': "sh' \<in> set (shapes a sh)" "fits h' sh'" by (auto simp: list_ex_iff)
  from Seq.IH(2) [OF b sh'(2)] obtain sh'' where
    "sh'' \<in> set (shapes b sh')" "fits h sh''" by (auto simp: list_ex_iff)
  with sh'(1) show ?case by (auto simp: list_ex_iff)
next
  case (Alt a b)
  from Alt.prems have "(t, h) \<in> set (rmatch a s g) \<or> (t, h) \<in> set (rmatch b s g)" by simp
  then show ?case
  proof
    assume "(t, h) \<in> set (rmatch a s g)"
    from Alt.IH(1) [OF this Alt.prems(2)] show ?thesis by (auto simp: list_ex_iff)
  next
    assume "(t, h) \<in> set (rmatch b s g)"
    from Alt.IH(2) [OF this Alt.prems(2)] show ?thesis by (auto simp: list_ex_iff)
  qed
next
  case (Opt a)
  from Opt.prems have "(t, h) \<in> set (rmatch a s g) \<or> h = g" by auto
  then show ?case
  proof
    assume "(t, h) \<in> set (rmatch a s g)"
    from Opt.IH [OF this Opt.prems(2)] show ?thesis by (auto simp: list_ex_iff)
  next
    assume "h = g"
    with Opt.prems(2) show ?thesis by (auto simp: list_ex_iff)
  qed
next
  case (Grp i a)
  from Grp.prems obtain h' where a: "(t, h') \<in> set (rmatch a s g)"
    and h: "h = h'[i - 1 := Some (take (length s - length t) s)]" by auto
  from Grp.IH [OF a Grp.prems(2)] obtain sh' where
    sh': "sh' \<in> set (shapes a sh)" "fits h' sh'" by (auto simp: list_ex_iff)
  from rmatch_consumes [OF a] obtain u where u: "s = u @ t"
    "nospace a \<longrightarrow> list_all (\<lambda>c. \<not> isspace c) u" "nonempty a \<longrightarrow> u \<noteq> []" by blast
  have tk: "take (length s - length t) s = u" using u(1) by simp
  have "holds (Some u) (if nospace a \<and> nonempty a then Solid else Anything)"
    using u(2,3) by (simp add: solid_text_def)
  then have "fits h (sh'[i - 1 := (if nospace a \<and> nonempty a then Solid else Anything)])"
    unfolding h tk fits_def using sh'(2) [unfolded fits_def]
    by (rule list_all2_update_cong [rotated])
  with sh'(1) show ?case by (auto simp: list_ex_iff)
qed (auto simp: list_ex_iff split: if_splits list.splits)

lemma lead_solid_truthy:
  "fits g sh \<Longrightarrow> lead_solid n sh \<Longrightarrow>
   n \<le> length (truthy g) \<and> list_all solid_text (take n (truthy g))"
proof (induction n sh arbitrary: g rule: lead_solid.induct)
  case (1 sh)
  then show ?case by simp
next
  case (2 n)
  then show ?case by simp
next
  case (3 n sh)
  from "3.prems"(1) obtain x g' where g: "g = x # g'" "holds x Unset" "fits g' sh"
    by (auto simp: fits_def list_all2_Cons2)
  then have "x = None" by (cases x) auto
  with g "3.IH" [OF g(3)] "3.prems"(2) show ?case by simp
next
  case (4 n sh)
  from "4.prems"(1) obtain x g' where g: "g = x # g'" "holds x Solid" "fits g' sh"
    by (auto simp: fits_def list_all2_Cons2)
  then obtain w where w: "x = Some w" "solid_text w" by (cases x) auto
  then have "w \<noteq> []" by (simp add: solid_text_def)
  with g w "4.IH" [OF g(3)] "4.prems"(2) show ?case by simp
next
  case (5 n sh)
  then show ?case by simp
qed

lemma find_Some_mem: "List.find P xs = Some x \<Longrightarrow> x \<in> set xs \<and> P x"
  by (induction xs) (auto split: if_splits)

lemma scan_matches:
  "m \<in> set (scan r adv s) \<Longrightarrow> \<exists>s' t. (t, m) \<in> set (rmatch r s' (replicate (ngroups r) None))"
proof (induction r adv s rule: scan.induct)
  case (1 r adv s)
  show ?case
  proof (cases "match_at r adv s")
    case None
    with "1.prems" obtain c t where s: "s = c # t" "m \<in> set (scan r False t)"
      by (auto simp: scan.simps [of r adv s] split: list.splits)
    with "1.IH" None show ?thesis by blast
  next
    case (Some x)
    obtain t h where x: "x = (t, h)" by (cases x)
    have mem: "(t, h) \<in> set (rmatch r s (replicate (ngroups r) None))"
      using Some x find_Some_mem unfolding match_at_def by fastforce
    from "1.prems" Some x have
      "m = h \<or> (length t < length s \<and> m \<in> set (scan r False t))
         \<or> (\<not> length t < length s \<and> m \<in> set (scan r True s))"
      by (auto simp: scan.simps [of r adv s] split: if_splits)
    then show ?thesis
      using mem "1.IH" Some x by blast
  qed
qed

section \<open>The shapes of the twelve patterns\<close>

lemmas cset_defs = whitespace_def ident_start_def ident_char_def type_char_def not_rparen_def
  ident_def word_def

lemmas pattern_defs = python_pattern_def javascript_pattern_def rust_pattern_def go_pattern_def
  dart_pattern_def java_pattern_def kotlin_pattern_def swift_pattern_def c_pattern_def
  cpp_pattern_def php_pattern_def

lemma replicate_numeral_eq: "replicate (numeral k) x = x # replicate (pred_numeral k) x"
  by (simp add: numeral_eq_Suc)

lemma solid_ident: "nospace ident \<and> nonempty ident"
  by (simp add: cset_defs isspace_def WHITESPACE_def)

lemma solid_word: "nospace word \<and> nonempty word"
  by (simp add: cset_defs isspace_def WHITESPACE_def)

lemma plain_ident: "shapes ident sh = [sh]" "ngroups ident = 0"
  by (simp_all add: ident_def)

lemma plain_word: "shapes word sh = [sh]" "ngroups word = 0"
  by (simp_all add: word_def)

lemma py_simps:
  "py [] = []"
  "py (c # cs) = of_char c # py cs"
  by (simp_all add: py_def)

lemma shapes_python:
  "list_all (lead_solid (Suc 0)) (shapes python_pattern (replicate (ngroups python_pattern) Unset))"
  by (simp add: python_pattern_def solid_ident plain_ident replicate_numeral_eq)

lemma shapes_javascript:
  "list_all (lead_solid (Suc 0))
     (shapes javascript_pattern (replicate (ngroups javascript_pattern) Unset))"
  by (simp add: javascript_pattern_def solid_ident plain_ident replicate_numeral_eq)

lemma shapes_rust:
  "list_all (lead_solid (Suc 0)) (shapes rust_pattern (replicate (ngroups rust_pattern) Unset))"
  by (simp add: rust_pattern_def solid_ident plain_ident replicate_numeral_eq)

lemma shapes_go:
  "list_all (lead_solid (Suc 0)) (shapes go_pattern (replicate (ngroups go_pattern) Unset))"
  by (simp add: go_pattern_def solid_ident plain_ident replicate_numeral_eq)

lemma shapes_dart:
  "list_all (lead_solid (Suc 0)) (shapes dart_pattern (replicate (ngroups dart_pattern) Unset))"
  by (simp add: dart_pattern_def solid_ident plain_ident replicate_numeral_eq)

lemma shapes_java:
  "list_all (lead_solid (Suc 0))
     (shapes (java_pattern W) (replicate (ngroups (java_pattern W)) Unset))"
  by (simp add: java_pattern_def solid_word plain_word replicate_numeral_eq)

lemma shapes_kotlin:
  "list_all (lead_solid (Suc 0)) (shapes kotlin_pattern (replicate (ngroups kotlin_pattern) Unset))"
  by (simp add: kotlin_pattern_def solid_word plain_word replicate_numeral_eq)

lemma shapes_swift:
  "list_all (lead_solid (Suc 0)) (shapes swift_pattern (replicate (ngroups swift_pattern) Unset))"
  by (simp add: swift_pattern_def solid_word plain_word replicate_numeral_eq)

lemma shapes_c:
  "list_all (lead_solid (Suc (Suc 0))) (shapes c_pattern (replicate (ngroups c_pattern) Unset))"
  by (simp add: c_pattern_def solid_word plain_word replicate_numeral_eq)

lemma shapes_cpp:
  "list_all (lead_solid (Suc (Suc 0))) (shapes cpp_pattern (replicate (ngroups cpp_pattern) Unset))"
  by (simp add: cpp_pattern_def solid_word plain_word replicate_numeral_eq)

lemma shapes_php:
  "list_all (lead_solid (Suc 0)) (shapes php_pattern (replicate (ngroups php_pattern) Unset))"
  by (simp add: php_pattern_def solid_word plain_word replicate_numeral_eq)

section \<open>From matches to signatures\<close>

lemma patterns_cases:
  assumes "PATTERNS W lang = Some p"
  shows "(lang, p) \<in> set
     [(py ''python'', python_pattern),
      (py ''javascript'', javascript_pattern),
      (py ''typescript'', javascript_pattern),
      (py ''rust'', rust_pattern),
      (py ''go'', go_pattern),
      (py ''dart'', dart_pattern),
      (py ''java'', java_pattern W),
      (py ''kotlin'', kotlin_pattern),
      (py ''swift'', swift_pattern),
      (py ''c'', c_pattern),
      (py ''cpp'', cpp_pattern),
      (py ''php'', php_pattern)]"
  using assms unfolding PATTERNS_def by (rule map_of_SomeD)

lemma lead_solid_Suc: "lead_solid (Suc n) sh \<Longrightarrow> lead_solid n sh"
  by (induction n sh rule: lead_solid.induct) auto

lemma patterns_lead1:
  assumes "PATTERNS W lang = Some p"
  shows "list_all (lead_solid (Suc 0)) (shapes p (replicate (ngroups p) Unset))"
proof -
  have c: "list_all (lead_solid (Suc 0)) (shapes c_pattern (replicate (ngroups c_pattern) Unset))"
    using shapes_c by (auto simp: list_all_iff dest: lead_solid_Suc)
  have cpp: "list_all (lead_solid (Suc 0))
      (shapes cpp_pattern (replicate (ngroups cpp_pattern) Unset))"
    using shapes_cpp by (auto simp: list_all_iff dest: lead_solid_Suc)
  from patterns_cases [OF assms] show ?thesis
    using shapes_python shapes_javascript shapes_rust shapes_go shapes_dart shapes_java
      shapes_kotlin shapes_swift c cpp shapes_php
    by auto
qed

lemma py_c_neq: "py ''c'' \<noteq> py ''cpp''"
  by (simp add: py_def)

lemma patterns_lead2:
  assumes "PATTERNS W lang = Some p" "lang = py ''c'' \<or> lang = py ''cpp''"
  shows "list_all (lead_solid (Suc (Suc 0))) (shapes p (replicate (ngroups p) Unset))"
proof -
  have "p = c_pattern \<or> p = cpp_pattern"
    using assms by (auto simp: PATTERNS_def py_def)
  then show ?thesis using shapes_c shapes_cpp by auto
qed

lemma fits_initial: "fits (replicate n None) (replicate n Unset)"
  by (simp add: fits_def list_all2_conv_all_nth)

lemma finditer_lead:
  assumes "list_all (lead_solid k) (shapes p (replicate (ngroups p) Unset))"
    and "m \<in> set (finditer p content)"
  shows "k \<le> length (truthy m) \<and> list_all solid_text (take k (truthy m))"
proof -
  from assms(2) obtain s t where "(t, m) \<in> set (rmatch p s (replicate (ngroups p) None))"
    unfolding finditer_def using scan_matches by blast
  from rmatch_shapes [OF this fits_initial] obtain sh where
    "sh \<in> set (shapes p (replicate (ngroups p) Unset))" "fits m sh"
    by (auto simp: list_ex_iff)
  with assms(1) have "lead_solid k sh" by (simp add: list_all_iff)
  with \<open>fits m sh\<close> show ?thesis by (rule lead_solid_truthy)
qed

lemma collect_map:
  "list_all (\<lambda>m. truthy m \<noteq> []) (yielded es) \<Longrightarrow>
   collect lang es found = found @ map (\<lambda>m. signature_of lang (truthy m)) (yielded es)"
proof (induction es arbitrary: found)
  case Nil
  then show ?case by simp
next
  case (Cons e es)
  then show ?case by (cases e) (simp_all add: Let_def)
qed

lemma yielded_finditer:
  "yielded (re_finditer fault p s)
     = (case fault of None \<Rightarrow> finditer p s | Some n \<Rightarrow> take n (finditer p s))"
proof -
  have a: "yielded (map Found ms) = ms" for ms by (induction ms) simp_all
  have b: "yielded (map Found ms @ [Raised]) = ms" for ms by (induction ms) simp_all
  show ?thesis by (simp add: re_finditer_def a b split: option.splits)
qed

lemma yielded_subset: "set (yielded (re_finditer fault p s)) \<subseteq> set (finditer p s)"
  by (auto simp: yielded_finditer split: option.splits dest: in_set_takeD)

lemma extract_map:
  assumes "PATTERNS W lang = Some p"
  shows "extract_functions W fault content lang
    = map (\<lambda>m. signature_of lang (truthy m)) (yielded (re_finditer fault p content))"
proof -
  have "truthy m \<noteq> []" if "m \<in> set (yielded (re_finditer fault p content))" for m
  proof -
    from that yielded_subset have "m \<in> set (finditer p content)" by blast
    from finditer_lead [OF patterns_lead1 [OF assms] this] show ?thesis by auto
  qed
  then have "list_all (\<lambda>m. truthy m \<noteq> []) (yielded (re_finditer fault p content))"
    by (simp add: list_all_iff)
  from collect_map [OF this, of lang "[]"] show ?thesis
    using assms by (simp add: extract_functions_def)
qed

lemma strip_solid: "solid_text w \<Longrightarrow> strip w = w"
proof -
  assume "solid_text w"
  then have w: "w \<noteq> []" "\<forall>c\<in>set w. \<not> isspace c" by (simp_all add: solid_text_def list_all_iff)
  then have "dropWhile isspace w = w" by (cases w) auto
  moreover have "dropWhile isspace (rev w) = rev w" using w by (cases "rev w") auto
  ultimately show ?thesis by (simp add: strip_def)
qed

section \<open>The patterns on sample texts\<close>

lemmas eval_defs = finditer_def scan.simps match_at_def cset_defs
  isspace_def WHITESPACE_def replicate_numeral_eq py_def

lemmas text_defs = py_def strip_def collapse_def split.simps isspace_def WHITESPACE_def

lemma patterns_c: "PATTERNS isalnum (py ''c'') = Some c_pattern"
  by (simp add: PATTERNS_def py_def)

lemma patterns_javascript: "PATTERNS isalnum (py ''javascript'') = Some javascript_pattern"
  by (simp add: PATTERNS_def py_def)

lemma patterns_python: "PATTERNS isalnum (py ''python'') = Some python_pattern"
  by (simp add: PATTERNS_def py_def)

lemma patterns_cobol: "PATTERNS isalnum (py ''cobol'') = None"
  by (simp add: PATTERNS_def py_def)

lemma finditer_add:
  "finditer c_pattern (py ''int add(int a, int b) {'')
     = [[Some (py ''int''), Some (py ''add''), Some (py ''int a, int b'')]]"
  by (simp add: eval_defs c_pattern_def)

lemma finditer_add0:
  "finditer c_pattern (py ''int add() {'') = [[Some (py ''int''), Some (py ''add''), Some []]]"
  by (simp add: eval_defs c_pattern_def)

lemma finditer_sum:
  "finditer javascript_pattern (py ''const sum = (a, b) => {'')
     = [[None, None, Some (py ''sum''), Some (py ''a, b''), None, None]]"
  by (simp add: eval_defs javascript_pattern_def)

lemma finditer_two:
  "finditer c_pattern (py ''int f(int a) { int g(int b) {'')
     = [[Some (py ''int''), Some (py ''f''), Some (py ''int a'')],
        [Some (py ''int''), Some (py ''g''), Some (py ''int b'')]]"
  by (simp add: eval_defs c_pattern_def)

lemma finditer_none: "finditer python_pattern (py ''x = 1'') = []"
  by (simp add: eval_defs python_pattern_def)

lemma finditer_many:
  "finditer c_pattern (concat (replicate 26 (py ''a b(){'')))
     = replicate 26 [Some (py ''a''), Some (py ''b''), Some []]"
  by (simp add: eval_defs c_pattern_def)

lemma signature_add:
  "signature_of (py ''c'') [py ''int'', py ''add'', py ''int a, int b'']
     = \<lparr>name = py ''add'', args = py ''int a, int b'', return = py ''int''\<rparr>"
  by (simp add: signature_of_def text_defs)

lemma signature_sum:
  "signature_of (py ''javascript'') [py ''sum'', py ''a, b'']
     = \<lparr>name = py ''sum'', args = py ''a, b'', return = py ''''\<rparr>"
  by (simp add: signature_of_def text_defs)

lemma signature_f:
  "signature_of (py ''c'') [py ''int'', py ''f'', py ''int a'']
     = \<lparr>name = py ''f'', args = py ''int a'', return = py ''int''\<rparr>"
  by (simp add: signature_of_def text_defs)

lemma truthy_add:
  "truthy [Some (py ''int''), Some (py ''add''), Some (py ''int a, int b'')]
     = [py ''int'', py ''add'', py ''int a, int b'']"
  by (simp add: py_def)

lemma truthy_sum:
  "truthy [None, None, Some (py ''sum''), Some (py ''a, b''), None, None]
     = [py ''sum'', py ''a, b'']"
  by (simp add: py_def)

lemma truthy_f:
  "truthy [Some (py ''int''), Some (py ''f''), Some (py ''int a'')]
     = [py ''int'', py ''f'', py ''int a'']"
  by (simp add: py_def)

lemma splitext_c: "splitext_ext (py ''a.c'') = py ''.c''"
  by (simp add: splitext_ext_def py_def)

lemma not_ignored_c: "py ''.c'' \<notin> IGNORE_EXTS"
  by (simp add: IGNORE_EXTS_def py_def)

lemma language_c: "get_language (py ''.c'') = Some (py ''c'')"
  by (simp add: get_language_def LANGUAGE_MAP_def py_def)

section \<open>The signature of a match\<close>

lemma name_signature_of:
  "name (signature_of lang gs)
     = (if lang \<in> set [py ''c'', py ''cpp''] \<and> 3 \<le> length gs then strip (gs ! 1) else strip (gs ! 0))"
  by (simp add: signature_of_def Let_def)

lemma take_solid:
  "k \<le> length gs \<Longrightarrow> list_all solid_text (take k gs) \<Longrightarrow> i < k \<Longrightarrow> solid_text (gs ! i)"
  by (simp add: list_all_length)

lemma solid_strip: "solid_text w \<Longrightarrow> strip (strip w) \<noteq> []"
  by (simp add: strip_solid) (simp add: solid_text_def)

lemma collapse_Nil: "collapse [] = []"
  by (simp add: collapse_def split_Nil)

lemma c_family_pattern:
  assumes "PATTERNS isalnum lang = Some p" "lang = py ''c'' \<or> lang = py ''cpp''"
  shows "p = c_pattern \<or> p = cpp_pattern"
  using assms by (auto simp: PATTERNS_def py_def)

lemma shapes_c_family:
  "set (shapes c_pattern (replicate (ngroups c_pattern) Unset)) = {[Solid, Solid, Anything]}"
  "set (shapes cpp_pattern (replicate (ngroups cpp_pattern) Unset)) = {[Solid, Solid, Anything]}"
  by (simp_all add: c_pattern_def cpp_pattern_def solid_word plain_word replicate_numeral_eq)

lemma fits_c_family:
  assumes "fits m [Solid, Solid, Anything]"
  shows "\<exists>a b c. m = [Some a, Some b, Some c] \<and> solid_text a \<and> solid_text b"
proof -
  from assms obtain x m1 where 1: "m = x # m1" "holds x Solid" "fits m1 [Solid, Anything]"
    unfolding fits_def list_all2_Cons2 by blast
  from 1(3) obtain y m2 where 2: "m1 = y # m2" "holds y Solid" "fits m2 [Anything]"
    unfolding fits_def list_all2_Cons2 by blast
  from 2(3) obtain z where 3: "m2 = [z]" "holds z Anything"
    unfolding fits_def list_all2_Cons2 by auto
  from 1(2) obtain a where a: "x = Some a" "solid_text a" by (cases x) simp_all
  from 2(2) obtain b where b: "y = Some b" "solid_text b" by (cases y) simp_all
  from 3(2) obtain c where c: "z = Some c" by (cases z) simp_all
  show ?thesis using 1(1) 2(1) 3(1) a b c by simp
qed

lemma c_family_match:
  assumes "p = c_pattern \<or> p = cpp_pattern" "m \<in> set (finditer p content)"
  shows "\<exists>a b c. m = [Some a, Some b, Some c] \<and> solid_text a \<and> solid_text b"
proof -
  from assms(2) obtain s t where "(t, m) \<in> set (rmatch p s (replicate (ngroups p) None))"
    unfolding finditer_def using scan_matches by blast
  from rmatch_shapes [OF this fits_initial] obtain sh where
    sh: "sh \<in> set (shapes p (replicate (ngroups p) Unset))" "fits m sh"
    by (auto simp: list_ex_iff)
  have "set (shapes p (replicate (ngroups p) Unset)) = {[Solid, Solid, Anything]}"
    using assms(1) shapes_c_family by blast
  with sh have "fits m [Solid, Solid, Anything]" by simp
  then show ?thesis by (rule fits_c_family)
qed

lemma try_extract_iff:
  "(try_extract isalnum f \<noteq> None)
     = ((\<exists>n. getsize f = Some n \<and> n < 102400) \<and> read f \<noteq> None
        \<and> get_language (splitext_ext (fname f)) \<noteq> None)"
  by (auto simp: try_extract_def MAX_FILE_SIZE_BYTES_def split: option.splits)

section \<open>The claims\<close>

text \<open>
  C1 (as amended). A failure of the pattern engine during the iteration does not leave
  \<open>extract_functions\<close>: the function returns, and what it returns are the signatures of
  the matches found before the failure, in order. With a failure at the request for match
  number \<open>n\<close> these are the first \<open>n\<close> signatures of the run without failure; the result
  is empty only when the failure comes before the first match.
\<close>

theorem failure_keeps_earlier_signatures:
  "extract_functions isalnum (Some n) content lang
     = take n (extract_functions isalnum None content lang)"
proof (cases "PATTERNS isalnum lang")
  case None
  then show ?thesis by (simp add: extract_functions_def)
next
  case (Some p)
  show ?thesis
    by (simp add: extract_map [OF Some] yielded_finditer take_map)
qed

text \<open>
  The claim as stated (a failure at any point gives the empty sequence) fails: on a text
  with two C functions and a failure at the request for the second match, the signature
  of the first function is returned.
\<close>

theorem failure_returns_empty_counterexample:
  "re_finditer (Some 1) c_pattern (py ''int f(int a) { int g(int b) {'')
     = [Found [Some (py ''int''), Some (py ''f''), Some (py ''int a'')], Raised]
   \<and> extract_functions (\<lambda>c. False) (Some 1) (py ''int f(int a) { int g(int b) {'') (py ''c'')
     = [\<lparr>name = py ''f'', args = py ''int a'', return = py ''int''\<rparr>]"
proof -
  have a: "re_finditer (Some 1) c_pattern (py ''int f(int a) { int g(int b) {'')
     = [Found [Some (py ''int''), Some (py ''f''), Some (py ''int a'')], Raised]"
    by (simp add: re_finditer_def finditer_two)
  have "extract_functions (\<lambda>c. False) (Some 1) (py ''int f(int a) { int g(int b) {'') (py ''c'')
     = collect (py ''c'') [Found [Some (py ''int''), Some (py ''f''), Some (py ''int a'')], Raised] []"
    by (simp only: extract_functions_def patterns_c option.case a)
  also have "\<dots> = [signature_of (py ''c'') (truthy [Some (py ''int''), Some (py ''f''), Some (py ''int a'')])]"
    by (simp add: Let_def py_def)
  also have "\<dots> = [\<lparr>name = py ''f'', args = py ''int a'', return = py ''int''\<rparr>]"
    by (simp only: truthy_f signature_f)
  finally show ?thesis using a by simp
qed

text \<open>
  C2. For the languages \<open>c\<close> and \<open>cpp\<close>: when match number \<open>i\<close> of the pattern has at
  least three non-empty groups \<open>gs\<close>, signature number \<open>i\<close> of the result has the name
  \<open>gs[1]\<close>, the arguments \<open>gs[2]\<close> and the return type \<open>gs[0]\<close>, each stripped; the
  cleanup then collapses the whitespace inside the arguments and the return type.
\<close>

theorem c_family_three_groups:
  assumes "lang = py ''c'' \<or> lang = py ''cpp''"
    and "PATTERNS isalnum lang = Some p"
    and "i < length (yielded (re_finditer fault p content))"
    and "gs = truthy (yielded (re_finditer fault p content) ! i)"
    and "3 \<le> length gs"
  shows "extract_functions isalnum fault content lang ! i
    = \<lparr>name = strip (gs ! 1), args = collapse (strip (gs ! 2)),
       return = collapse (strip (gs ! 0))\<rparr>"
proof -
  have "extract_functions isalnum fault content lang ! i = signature_of lang gs"
    using assms(3,4) by (simp add: extract_map [OF assms(2)])
  also have "\<dots> = \<lparr>name = strip (gs ! 1), args = collapse (strip (gs ! 2)),
       return = collapse (strip (gs ! 0))\<rparr>"
    using assms(1,5) by (auto simp: signature_of_def)
  finally show ?thesis .
qed

theorem c_family_three_groups_witness:
  "PATTERNS (\<lambda>c. False) (py ''c'') = Some c_pattern
   \<and> yielded (re_finditer None c_pattern (py ''int add(int a, int b) {''))
       = [[Some (py ''int''), Some (py ''add''), Some (py ''int a, int b'')]]
   \<and> extract_functions (\<lambda>c. False) None (py ''int add(int a, int b) {'') (py ''c'') ! 0
       = \<lparr>name = strip (py ''add''), args = collapse (strip (py ''int a, int b'')),
          return = collapse (strip (py ''int''))\<rparr>"
proof -
  have y: "yielded (re_finditer None c_pattern (py ''int add(int a, int b) {''))
       = [[Some (py ''int''), Some (py ''add''), Some (py ''int a, int b'')]]"
    by (simp only: yielded_finditer option.case finditer_add)
  have "extract_functions (\<lambda>c. False) None (py ''int add(int a, int b) {'') (py ''c'') ! 0
       = \<lparr>name = strip ([py ''int'', py ''add'', py ''int a, int b''] ! 1),
          args = collapse (strip ([py ''int'', py ''add'', py ''int a, int b''] ! 2)),
          return = collapse (strip ([py ''int'', py ''add'', py ''int a, int b''] ! 0))\<rparr>"
    by (rule c_family_three_groups [where p = c_pattern and fault = None])
      (simp_all only: patterns_c y truthy_add, simp_all add: py_def)
  then show ?thesis using patterns_c y by simp
qed

text \<open>
  C3. The C pattern on \<open>int add(int a, int b) {\<close> gives exactly one signature: name
  \<open>add\<close>, arguments \<open>int a, int b\<close>, return type \<open>int\<close>.
\<close>

theorem c_example:
  "extract_functions isalnum None (py ''int add(int a, int b) {'') (py ''c'')
     = [\<lparr>name = py ''add'', args = py ''int a, int b'', return = py ''int''\<rparr>]"
  by (simp only: extract_map [OF patterns_c] yielded_finditer option.case finditer_add
      list.map truthy_add signature_add)

text \<open>
  C4. The JavaScript pattern on \<open>const sum = (a, b) => {\<close> gives exactly one
  signature: name \<open>sum\<close>, arguments \<open>a, b\<close>, empty return type.
\<close>

theorem arrow_example:
  "extract_functions isalnum None (py ''const sum = (a, b) => {'') (py ''javascript'')
     = [\<lparr>name = py ''sum'', args = py ''a, b'', return = py ''''\<rparr>]"
  by (simp only: extract_map [OF patterns_javascript] yielded_finditer option.case finditer_sum
      list.map truthy_sum signature_sum)

text \<open>
  C5. Whatever the content, the language and the behaviour of the engine, every signature
  that \<open>extract_functions\<close> returns has a name that is not empty after stripping. The
  function has no guard for this; it holds because in each of the twelve patterns the
  group that becomes the name is a non-empty run of identifier characters.
\<close>

theorem names_not_blank:
  "list_all (\<lambda>sig. strip (name sig) \<noteq> []) (extract_functions isalnum fault content lang)"
proof (cases "PATTERNS isalnum lang")
  case None
  then show ?thesis by (simp add: extract_functions_def)
next
  case (Some p)
  have "strip (name (signature_of lang (truthy m))) \<noteq> []"
    if m: "m \<in> set (yielded (re_finditer fault p content))" for m
  proof -
    from m yielded_subset have mem: "m \<in> set (finditer p content)" by blast
    show ?thesis
    proof (cases "lang = py ''c'' \<or> lang = py ''cpp''")
      case True
      from finditer_lead [OF patterns_lead2 [OF Some True] mem]
      have "solid_text (truthy m ! 0)" "solid_text (truthy m ! 1)"
        by (auto intro: take_solid)
      then show ?thesis by (simp add: name_signature_of solid_strip)
    next
      case False
      from finditer_lead [OF patterns_lead1 [OF Some] mem]
      have "solid_text (truthy m ! 0)" by (auto intro: take_solid)
      with False show ?thesis by (simp add: name_signature_of solid_strip)
    qed
  qed
  then show ?thesis by (simp add: extract_map [OF Some] list_all_iff)
qed

theorem names_not_blank_witness:
  "extract_functions (\<lambda>c. False) None (py ''int add(int a, int b) {'') (py ''c'') \<noteq> []
   \<and> list_all (\<lambda>sig. strip (name sig) \<noteq> [])
        (extract_functions (\<lambda>c. False) None (py ''int add(int a, int b) {'') (py ''c''))"
proof -
  have "extract_functions (\<lambda>c. False) None (py ''int add(int a, int b) {'') (py ''c'') \<noteq> []"
    by (simp only: extract_map [OF patterns_c] yielded_finditer option.case finditer_add
        list.map) simp
  then show ?thesis
    using names_not_blank [of "\<lambda>c. False" None "py ''int add(int a, int b) {''" "py ''c''"]
    by simp
qed

text \<open>
  C6 (as amended). For a file whose extension is not ignored, \<open>extract_functions\<close> is
  called exactly when \<open>getsize\<close> succeeds with a size strictly below 102400 bytes, the
  file can be read, and its extension maps to a language. Whether it is called or not, the
  line of the file is appended to the tree listing.
\<close>

theorem extraction_attempted_below_ceiling:
  assumes "splitext_ext (fname f) \<notin> IGNORE_EXTS"
  shows "(try_extract isalnum f \<noteq> None)
      = ((\<exists>n. getsize f = Some n \<and> n < 102400) \<and> read f \<noteq> None
         \<and> get_language (splitext_ext (fname f)) \<noteq> None)
    \<and> fst (process_file isalnum level (tree_lines, files_data) f)
      = tree_lines @ [file_line level (fname f)]"
proof (intro conjI)
  show "(try_extract isalnum f \<noteq> None)
      = ((\<exists>n. getsize f = Some n \<and> n < 102400) \<and> read f \<noteq> None
         \<and> get_language (splitext_ext (fname f)) \<noteq> None)"
    by (rule try_extract_iff)
  show "fst (process_file isalnum level (tree_lines, files_data) f)
      = tree_lines @ [file_line level (fname f)]"
    using assms by (simp add: Let_def)
qed

theorem extraction_attempted_below_ceiling_witness:
  "splitext_ext (py ''a.c'') \<notin> IGNORE_EXTS
   \<and> try_extract (\<lambda>c. False)
        \<lparr>fname = py ''a.c'', rel_path = py ''a.c'', getsize = Some 200000,
         read = Some (py ''int add(int a, int b) {''), engine_fault = None\<rparr> = None
   \<and> fst (process_file (\<lambda>c. False) 0 ([], [])
        \<lparr>fname = py ''a.c'', rel_path = py ''a.c'', getsize = Some 200000,
         read = Some (py ''int add(int a, int b) {''), engine_fault = None\<rparr>)
      = [file_line 0 (py ''a.c'')]
   \<and> try_extract (\<lambda>c. False)
        \<lparr>fname = py ''a.c'', rel_path = py ''a.c'', getsize = Some 30,
         read = Some (py ''int add(int a, int b) {''), engine_fault = None\<rparr> \<noteq> None"
proof -
  have n: "splitext_ext (py ''a.c'') \<notin> IGNORE_EXTS"
    by (simp only: splitext_c not_ignored_c not_False_eq_True)
  have l: "get_language (splitext_ext (py ''a.c'')) \<noteq> None"
    by (simp only: splitext_c language_c) simp
  from extraction_attempted_below_ceiling [of
      "\<lparr>fname = py ''a.c'', rel_path = py ''a.c'', getsize = Some 200000,
        read = Some (py ''int add(int a, int b) {''), engine_fault = None\<rparr>"
      "\<lambda>c. False" 0 "[]" "[]"]
    extraction_attempted_below_ceiling [of
      "\<lparr>fname = py ''a.c'', rel_path = py ''a.c'', getsize = Some 30,
        read = Some (py ''int add(int a, int b) {''), engine_fault = None\<rparr>"
      "\<lambda>c. False" 0 "[]" "[]"]
  show ?thesis using n l by simp
qed

text \<open>
  The claim as stated (extraction exactly when the size does not exceed 102400 bytes)
  fails at the ceiling itself: a readable C file of exactly 102400 bytes is not
  extracted, because the test of the script is \<open>size < MAX_FILE_SIZE_BYTES\<close>.
\<close>

theorem extraction_at_ceiling_counterexample:
  "(102400::nat) \<le> MAX_FILE_SIZE_BYTES
   \<and> splitext_ext (py ''a.c'') \<notin> IGNORE_EXTS
   \<and> get_language (splitext_ext (py ''a.c'')) = Some (py ''c'')
   \<and> try_extract (\<lambda>c. False)
        \<lparr>fname = py ''a.c'', rel_path = py ''a.c'', getsize = Some 102400,
         read = Some (py ''int add(int a, int b) {''), engine_fault = None\<rparr> = None"
proof -
  have "try_extract (\<lambda>c. False)
        \<lparr>fname = py ''a.c'', rel_path = py ''a.c'', getsize = Some 102400,
         read = Some (py ''int add(int a, int b) {''), engine_fault = None\<rparr> = None"
    by (simp add: try_extract_def MAX_FILE_SIZE_BYTES_def)
  moreover have "(102400::nat) \<le> MAX_FILE_SIZE_BYTES"
    by (simp add: MAX_FILE_SIZE_BYTES_def)
  moreover have "splitext_ext (py ''a.c'') \<notin> IGNORE_EXTS"
    by (simp only: splitext_c not_ignored_c not_False_eq_True)
  moreover have "get_language (splitext_ext (py ''a.c'')) = Some (py ''c'')"
    by (simp only: splitext_c language_c)
  ultimately show ?thesis by simp
qed

text \<open>
  C7. When the content of a file is read (extension not ignored, size below the
  ceiling, language known) and the iterator yields more than 25 matches, the entry
  recorded for the file holds exactly 25 signatures: those of the first 25 matches, in
  the order of the matches.
\<close>

theorem first_25_recorded:
  assumes "splitext_ext (fname f) \<notin> IGNORE_EXTS"
    and "getsize f = Some n" and "n < MAX_FILE_SIZE_BYTES"
    and "read f = Some content"
    and "get_language (splitext_ext (fname f)) = Some lang"
    and "PATTERNS isalnum lang = Some p"
    and "ms = yielded (re_finditer (engine_fault f) p content)"
    and "25 < length ms"
  shows "snd (process_file isalnum level (tree_lines, files_data) f)
      = files_data @ [\<lparr>path = rel_path f,
          functions = map (\<lambda>m. signature_of lang (truthy m)) (take 25 ms)\<rparr>]
    \<and> length (map (\<lambda>m. signature_of lang (truthy m)) (take 25 ms)) = 25"
proof -
  have t: "try_extract isalnum f = Some (map (\<lambda>m. signature_of lang (truthy m)) ms)"
    using assms(2-5,7) by (simp add: try_extract_def extract_map [OF assms(6)])
  have ne: "map (\<lambda>m. signature_of lang (truthy m)) ms \<noteq> []"
    using assms(8) by auto
  show ?thesis
    using assms(1,8) ne by (simp add: t Let_def take_map)
qed

theorem first_25_recorded_witness:
  "25 < length (yielded (re_finditer None c_pattern (concat (replicate 26 (py ''a b(){'')))))
   \<and> snd (process_file (\<lambda>c. False) 0 ([], [])
        \<lparr>fname = py ''a.c'', rel_path = py ''a.c'', getsize = Some 156,
         read = Some (concat (replicate 26 (py ''a b(){''))), engine_fault = None\<rparr>)
      = [\<lparr>path = py ''a.c'',
          functions = map (\<lambda>m. signature_of (py ''c'') (truthy m))
            (take 25 (yielded (re_finditer None c_pattern
               (concat (replicate 26 (py ''a b(){''))))))\<rparr>]
   \<and> length (map (\<lambda>m. signature_of (py ''c'') (truthy m))
            (take 25 (yielded (re_finditer None c_pattern
               (concat (replicate 26 (py ''a b(){''))))))) = 25"
proof -
  let ?f = "\<lparr>fname = py ''a.c'', rel_path = py ''a.c'', getsize = Some 156,
         read = Some (concat (replicate 26 (py ''a b(){''))), engine_fault = None\<rparr>"
  let ?ms = "yielded (re_finditer None c_pattern (concat (replicate 26 (py ''a b(){''))))"
  have n: "splitext_ext (fname ?f) \<notin> IGNORE_EXTS"
    by (simp only: file_entry.simps splitext_c not_ignored_c not_False_eq_True)
  have l: "get_language (splitext_ext (fname ?f)) = Some (py ''c'')"
    by (simp only: file_entry.simps splitext_c language_c)
  have len: "25 < length ?ms"
    by (simp only: yielded_finditer option.case finditer_many) simp
  have s: "(156::nat) < MAX_FILE_SIZE_BYTES"
    by (simp add: MAX_FILE_SIZE_BYTES_def)
  from first_25_recorded [where f = ?f and isalnum = "\<lambda>c. False" and level = 0
      and tree_lines = "[]" and files_data = "[]" and ms = ?ms and lang = "py ''c''"
      and p = c_pattern and n = 156 and content = "concat (replicate 26 (py ''a b(){''))",
      OF n _ s _ l patterns_c _ len]
  show ?thesis using len by simp
qed

text \<open>
  C8. The cleanup applied to the arguments and to the return type, \<open>" ".join(x.split())\<close>,
  is idempotent: collapsing a collapsed string changes nothing.
\<close>

theorem collapse_idempotent: "collapse (collapse s) = collapse s"
proof -
  have "list_all (\<lambda>w. w \<noteq> [] \<and> list_all (\<lambda>c. \<not> isspace c) w) (split s)"
    unfolding list_all_iff [of _ "split s"] using split_words by blast
  then show ?thesis by (simp add: collapse_def split_join)
qed

text \<open>
  C9. When the language has no pattern, or its pattern has no match in the content,
  \<open>extract_functions\<close> returns the empty list, whatever the engine does; the function
  has no other outcome than a list.
\<close>

theorem no_match_no_signature:
  assumes "PATTERNS isalnum lang = None
    \<or> (\<exists>p. PATTERNS isalnum lang = Some p \<and> finditer p content = [])"
  shows "extract_functions isalnum fault content lang = []"
  using assms
  by (cases fault) (auto simp: extract_functions_def re_finditer_def)

theorem no_match_no_signature_witness:
  "PATTERNS (\<lambda>c. False) (py ''python'') = Some python_pattern
   \<and> finditer python_pattern (py ''x = 1'') = []
   \<and> extract_functions (\<lambda>c. False) None (py ''x = 1'') (py ''python'') = []
   \<and> PATTERNS (\<lambda>c. False) (py ''cobol'') = None
   \<and> extract_functions (\<lambda>c. False) None (py ''x = 1'') (py ''cobol'') = []"
proof -
  have a: "PATTERNS (\<lambda>c. False) (py ''python'') = Some python_pattern
      \<and> finditer python_pattern (py ''x = 1'') = []"
    using patterns_python finditer_none by simp
  have b: "PATTERNS (\<lambda>c. False) (py ''cobol'') = None"
    by (rule patterns_cobol)
  from a have "extract_functions (\<lambda>c. False) None (py ''x = 1'') (py ''python'') = []"
    by (intro no_match_no_signature) blast
  moreover from b have "extract_functions (\<lambda>c. False) None (py ''x = 1'') (py ''cobol'') = []"
    by (intro no_match_no_signature) blast
  ultimately show ?thesis using a b by simp
qed

text \<open>
  C10. For the languages \<open>c\<close> and \<open>cpp\<close>: when match number \<open>i\<close> has exactly two
  non-empty groups, signature number \<open>i\<close> takes its name from the first of them, which
  is the first group of the pattern (the return-type token), and has empty arguments and
  an empty return type; the third group of the pattern, the parameter list, is then the
  empty string, dropped by the filter.
\<close>

theorem c_family_two_groups:
  assumes "lang = py ''c'' \<or> lang = py ''cpp''"
    and "PATTERNS isalnum lang = Some p"
    and "i < length (yielded (re_finditer fault p content))"
    and "m = yielded (re_finditer fault p content) ! i"
    and "length (truthy m) = 2"
  shows "extract_functions isalnum fault content lang ! i
      = \<lparr>name = truthy m ! 0, args = [], return = []\<rparr>
    \<and> m ! 0 = Some (truthy m ! 0) \<and> m ! 2 = Some []"
proof -
  have "m \<in> set (yielded (re_finditer fault p content))"
    using assms(3,4) by simp
  with yielded_subset have "m \<in> set (finditer p content)" by blast
  from c_family_match [OF c_family_pattern [OF assms(2,1)] this]
  obtain a b c where m: "m = [Some a, Some b, Some c]" "solid_text a" "solid_text b" by blast
  then have ne: "a \<noteq> []" "b \<noteq> []" by (simp_all add: solid_text_def)
  with m(1) assms(5) have c: "c = []" by (auto split: if_splits)
  have t: "truthy m = [a, b]" using m(1) ne c by simp
  have "extract_functions isalnum fault content lang ! i = signature_of lang (truthy m)"
    using assms(3,4) by (simp add: extract_map [OF assms(2)])
  also have "\<dots> = \<lparr>name = strip a, args = [], return = []\<rparr>"
    using assms(1) t by (auto simp: signature_of_def collapse_Nil)
  finally show ?thesis using m strip_solid [OF m(2)] t c by simp
qed

theorem c_family_two_groups_witness:
  "PATTERNS (\<lambda>c. False) (py ''c'') = Some c_pattern
   \<and> yielded (re_finditer None c_pattern (py ''int add() {''))
       = [[Some (py ''int''), Some (py ''add''), Some []]]
   \<and> extract_functions (\<lambda>c. False) None (py ''int add() {'') (py ''c'') ! 0
       = \<lparr>name = py ''int'', args = [], return = []\<rparr>"
proof -
  have y: "yielded (re_finditer None c_pattern (py ''int add() {''))
       = [[Some (py ''int''), Some (py ''add''), Some []]]"
    by (simp only: yielded_finditer option.case finditer_add0)
  have t: "truthy [Some (py ''int''), Some (py ''add''), Some []] = [py ''int'', py ''add'']"
    by (simp add: py_def)
  have "extract_functions (\<lambda>c. False) None (py ''int add() {'') (py ''c'') ! 0
      = \<lparr>name = truthy [Some (py ''int''), Some (py ''add''), Some []] ! 0, args = [], return = []\<rparr>
    \<and> [Some (py ''int''), Some (py ''add''), Some []] ! 0
        = Some (truthy [Some (py ''int''), Some (py ''add''), Some []] ! 0)
    \<and> [Some (py ''int''), Some (py ''add''), Some []] ! 2 = Some []"
    by (rule c_family_two_groups [where p = c_pattern and fault = None])
      (simp_all only: patterns_c y t, simp_all add: py_def)
  then show ?thesis using patterns_c y t by simp
qed

end
